theory Spec2Isabelle
  imports Main
begin

section \<open>Python string primitives used by \<open>hup.io.plain\<close>\<close>

text \<open>
  A Python \<open>str\<close> is modelled as a HOL \<open>string\<close>; a \<open>char\<close> stands for a code
  point below 256. \<open>isspace\<close> is Python's \<open>str.isspace\<close> on that range: the
  characters that \<open>str.strip\<close>, \<open>str.lstrip\<close> and \<open>str.rstrip\<close> remove when they
  are called without an argument.
\<close>

definition isspace :: "char \<Rightarrow> bool" where
  "isspace c = (c \<in> set [CHR 0x09, CHR 0x0A, CHR 0x0B, CHR 0x0C, CHR 0x0D,
                          CHR 0x1C, CHR 0x1D, CHR 0x1E, CHR 0x1F, CHR 0x20,
                          CHR 0x85, CHR 0xA0])"

definition lstrip :: "string \<Rightarrow> string" where
  \<comment> \<open>\<open>s.lstrip()\<close>\<close>
  "lstrip s = dropWhile isspace s"

definition rstrip :: "string \<Rightarrow> string" where
  \<comment> \<open>\<open>s.rstrip()\<close>\<close>
  "rstrip s = rev (dropWhile isspace (rev s))"

definition strip :: "string \<Rightarrow> string" where
  \<comment> \<open>\<open>s.strip()\<close>\<close>
  "strip s = lstrip (rstrip s)"

definition rstrip_chars :: "string \<Rightarrow> string \<Rightarrow> string" where
  \<comment> \<open>\<open>s.rstrip(chars)\<close>: drops the trailing characters that occur in \<open>chars\<close>\<close>
  "rstrip_chars chars s = rev (dropWhile (\<lambda>c. c \<in> set chars) (rev s))"

definition startswith :: "string \<Rightarrow> string \<Rightarrow> bool" where
  \<comment> \<open>\<open>s.startswith(p)\<close>\<close>
  "startswith s p = (take (length p) s = p)"

definition join_empty :: "string list \<Rightarrow> string" where
  \<comment> \<open>\<open>''.join(lines)\<close>\<close>
  "join_empty lines = concat lines"

section \<open>Errors\<close>

datatype error =
    ResolutionError
  | OSError
  | ValueError
  | OtherError string

section \<open>The scanning loops of \<open>get_comment\<close> and \<open>get_content\<close>\<close>

text \<open>
  Iterating over a text stream yields its lines one at a time, each with its line
  terminator; fetching the next line may raise. The items of an iteration are therefore
  a list of \<open>error + string\<close>: \<open>Inr line\<close> is a line, \<open>Inl e\<close> is the error raised
  when the loop asks for that item. An item is only looked at when the loop reaches it.
\<close>

fun get_comment_loop :: "(error + string) list \<Rightarrow> string list \<Rightarrow> error + string list" where
  "get_comment_loop [] lines = Inr lines"
| "get_comment_loop (Inl e # rest) lines = Inl e"
| "get_comment_loop (Inr line # rest) lines =
     (let lstrip_line = lstrip line in
      if rstrip lstrip_line = [] then get_comment_loop rest lines
      else if \<not> startswith lstrip_line ''#'' then Inr lines
      else get_comment_loop rest (lines @ [lstrip (drop 1 lstrip_line)]))"

fun get_content_loop :: "int \<Rightarrow> (error + string) list \<Rightarrow> string list \<Rightarrow> error + string list" where
  "get_content_loop lines [] content = Inr content"
| "get_content_loop lines (Inl e # rest) content = Inl e"
| "get_content_loop lines (Inr line # rest) content =
     (if lines \<noteq> 0 \<and> int (length content) \<ge> lines then Inr content
      else let strip_line = strip line in
        if strip_line = [] \<or> startswith strip_line ''#'' then get_content_loop lines rest content
        else get_content_loop lines rest (content @ [rstrip_chars [CHR 0x0D, CHR 0x0A] line]))"

section \<open>Streams and connectors\<close>

text \<open>
  \<open>hup.io.plain\<close> reaches a file only through a connector: \<open>FileConnector(file)\<close>
  builds one from a file reference, \<open>cman.open(mode=mode)\<close> returns a stream and
  \<open>cman.close()\<close> releases it. The class \<open>FileConnector\<close> is not part of
  \<open>plain.py\<close>, so the functions below take it as their first argument.
  The type \<open>'s\<close> is the state of everything outside the process (file system, open
  streams); every operation of a stream or connector passes it along.

  A stream \<open>fh\<close> offers what \<open>plain.py\<close> uses: \<open>isinstance(fh, io.TextIOBase)\<close>,
  \<open>fh.read()\<close>, \<open>fh.write(text)\<close> and iteration \<open>for line in fh\<close>.
\<close>

record 's handle =
  is_text :: bool
  fh_read :: "'s \<Rightarrow> (error + string) \<times> 's"
  fh_write :: "string \<Rightarrow> 's \<Rightarrow> (error + nat) \<times> 's"
  fh_iter :: "'s \<Rightarrow> (error + string) list"

record 's connector =
  conn_open :: "string \<Rightarrow> 's \<Rightarrow> (error + 's handle) \<times> 's"
  conn_close :: "'s \<Rightarrow> 's"

text \<open>
  What one use of \<open>openx\<close> does to its connector, in order: the call of
  \<open>open\<close> with the mode it passes, the hand-over of the stream to the body of the
  \<open>with\<close> statement, and the call of \<open>close\<close>.
\<close>

datatype event = Open string | Yield | Close

section \<open>\<open>openx\<close>\<close>

text \<open>
  \<open>with openx(file, mode) as fh: body\<close>. The body of the \<open>with\<close> statement is a
  function of the stream and the state that returns a value or the error it raises. The
  result is the value or error that reaches the caller, the state left behind, and the
  events of this use of \<open>openx\<close>. An error of \<open>FileConnector(file)\<close> or of
  \<open>cman.open\<close> is raised ahead of the \<open>try\<close> statement; the check of the stream
  closes the connector itself and raises \<open>ValueError\<close>; the \<open>finally\<close> clause
  closes the connector after the body, whether the body returned or raised.
\<close>

definition openx ::
  "('f \<Rightarrow> error + 's connector) \<Rightarrow> 'f \<Rightarrow> string \<Rightarrow>
   ('s handle \<Rightarrow> 's \<Rightarrow> (error + 'a) \<times> 's) \<Rightarrow> 's \<Rightarrow> ((error + 'a) \<times> 's) \<times> event list" where
  "openx FileConnector file mode body s =
     (case FileConnector file of
        Inl e \<Rightarrow> ((Inl e, s), [])
      | Inr cman \<Rightarrow>
          (let mode' = (if CHR ''t'' \<notin> set mode then mode @ ''t'' else mode) in
           case conn_open cman mode' s of
             (Inl e, s1) \<Rightarrow> ((Inl e, s1), [Open mode'])
           | (Inr fh, s1) \<Rightarrow>
               if \<not> is_text fh then ((Inl ValueError, conn_close cman s1), [Open mode', Close])
               else (case body fh s1 of
                       (r, s2) \<Rightarrow> ((r, conn_close cman s2), [Open mode', Yield, Close]))))"

section \<open>\<open>load\<close>, \<open>save\<close>, \<open>get_comment\<close>, \<open>get_content\<close>\<close>

definition load ::
  "('f \<Rightarrow> error + 's connector) \<Rightarrow> 'f \<Rightarrow> 's \<Rightarrow> ((error + string) \<times> 's) \<times> event list" where
  "load FileConnector file s = openx FileConnector file ''r'' (\<lambda>fh. fh_read fh) s"

definition save ::
  "('f \<Rightarrow> error + 's connector) \<Rightarrow> string \<Rightarrow> 'f \<Rightarrow> 's \<Rightarrow> ((error + unit) \<times> 's) \<times> event list" where
  "save FileConnector text file s =
     openx FileConnector file ''w''
       (\<lambda>fh s'. case fh_write fh text s' of (r, s'') \<Rightarrow> (map_sum id (\<lambda>_. ()) r, s'')) s"

definition get_comment ::
  "('f \<Rightarrow> error + 's connector) \<Rightarrow> 'f \<Rightarrow> 's \<Rightarrow> ((error + string) \<times> 's) \<times> event list" where
  "get_comment FileConnector file s =
     (case openx FileConnector file ''r'' (\<lambda>fh s'. (get_comment_loop (fh_iter fh s') [], s')) s of
        ((r, s'), evs) \<Rightarrow> ((map_sum id (\<lambda>lines. rstrip (join_empty lines)) r, s'), evs))"

definition get_content ::
  "('f \<Rightarrow> error + 's connector) \<Rightarrow> 'f \<Rightarrow> int \<Rightarrow> 's \<Rightarrow> ((error + string list) \<times> 's) \<times> event list" where
  "get_content FileConnector file lines s =
     openx FileConnector file ''r'' (\<lambda>fh s'. (get_content_loop lines (fh_iter fh s') [], s')) s"

section \<open>The abstract base class \<open>Connector\<close>\<close>

text \<open>
  \<open>hup.io.abc.Connector\<close> declares its contract with \<open>abc.abstractmethod\<close>: the
  members a class has to define before Python lets it be instantiated. A class is given
  by the names of the members it defines.
\<close>

definition Connector_abstractmethods :: "string list" where
  "Connector_abstractmethods = [''name'', ''open'']"

definition instantiable :: "string list \<Rightarrow> bool" where
  "instantiable members = list_all (\<lambda>m. m \<in> set members) Connector_abstractmethods"

section \<open>File references, the file system and \<open>FileConnector\<close>\<close>

text \<open>
  Modelled from the spec: the file system that a connector for a path acts on (sections
  4.1, 5 and 7 of the specification; the code that reaches it is \<open>hup.io\<close>, which
  is not among the files of \<open>src/\<close>). The state outside the process is the separator
  \<open>os.linesep\<close> of the platform, the characters stored in each file, the paths the
  process is refused to open (permission denied), and the paths on which the process
  holds an open file.
\<close>

record world =
  os_linesep :: string
  files :: "string \<rightharpoonup> string"
  denied :: "string list"
  open_files :: "string list"

abbreviation LF :: char where "LF \<equiv> CHR 0x0A"
abbreviation CR :: char where "CR \<equiv> CHR 0x0D"

text \<open>
  Modelled from the spec: what the text-mode stream does to line endings by default
  (section 4.3 of the specification: no transformation of line endings beyond whatever the
  text-mode stream default performs). The docstring of \<open>openx\<close> says that it extends
  the standard \<open>open\<close>, and \<open>openx\<close> passes nothing but the mode, so the default is
  that of Python's \<open>open\<close> in text mode (\<open>newline=None\<close>): writing replaces every
  \<open>\n\<close> by \<open>os.linesep\<close>; reading returns \<open>\r\n\<close> and a lone \<open>\r\<close> as
  \<open>\n\<close>; iteration yields the text that \<open>read\<close> returns, cut after each \<open>\n\<close>.
  The encoding of the platform is taken to store every character as it is.
\<close>

definition translate_newlines :: "string \<Rightarrow> string \<Rightarrow> string" where
  "translate_newlines linesep text = concat (map (\<lambda>c. if c = LF then linesep else [c]) text)"

fun universal_newlines :: "string \<Rightarrow> string" where
  "universal_newlines [] = []"
| "universal_newlines [c] = [if c = CR then LF else c]"
| "universal_newlines (c # d # cs) =
     (if c = CR \<and> d = LF then LF # universal_newlines cs
      else if c = CR then LF # universal_newlines (d # cs)
      else c # universal_newlines (d # cs))"

fun readlines :: "string \<Rightarrow> string list" where
  "readlines [] = []"
| "readlines (c # cs) =
     (if c = LF then [c] # readlines cs
      else (case readlines cs of [] \<Rightarrow> [[c]] | l # ls \<Rightarrow> (c # l) # ls))"

text \<open>
  Modelled from the spec: the stream that a connector for a path opens (section 3, Text
  Stream): a text stream reading the file at \<open>path\<close>, and one writing it. Writing to a stream
  opened for reading, and reading from one opened for writing, raise
  \<open>io.UnsupportedOperation\<close>, an \<open>OSError\<close>. The position of a stream is not
  modelled: each function of \<open>plain.py\<close> reads a stream it opened once, from its start.
\<close>

definition text_reader :: "string \<Rightarrow> world handle" where
  "text_reader path =
     \<lparr> is_text = True,
       fh_read = (\<lambda>w. case files w path of
                          None \<Rightarrow> (Inl OSError, w)
                        | Some stored \<Rightarrow> (Inr (universal_newlines stored), w)),
       fh_write = (\<lambda>text w. (Inl OSError, w)),
       fh_iter = (\<lambda>w. case files w path of
                          None \<Rightarrow> [Inl OSError]
                        | Some stored \<Rightarrow> map Inr (readlines (universal_newlines stored))) \<rparr>"

definition text_writer :: "string \<Rightarrow> world handle" where
  "text_writer path =
     \<lparr> is_text = True,
       fh_read = (\<lambda>w. (Inl OSError, w)),
       fh_write = (\<lambda>text w.
          (Inr (length text),
           w\<lparr>files := (files w)(path \<mapsto>
                (case files w path of None \<Rightarrow> [] | Some stored \<Rightarrow> stored)
                @ translate_newlines (os_linesep w) text)\<rparr>)),
       fh_iter = (\<lambda>w. [Inl OSError]) \<rparr>"

text \<open>
  Modelled from the spec: the file reference (sections 3 and 6 of the specification, the
  type \<open>FileRef\<close> of \<open>hup.io\<close>) with its three shapes, and any other object.
  \<open>expand\<close> is the expansion of application variables such as \<open>%home%\<close> in a path,
  \<open>None\<close> where a variable cannot be resolved. A path is opened in the modes of
  section 6, \<open>r\<close> or \<open>w\<close>, as text; opening for writing empties the file.
\<close>

datatype fileref =
    PathRef string
  | StreamRef "world handle"
  | ConnRef "world connector"
  | OtherRef

definition mode_ok :: "string \<Rightarrow> bool" where
  "mode_ok mode = (distinct mode \<and> set mode \<subseteq> {CHR ''r'', CHR ''w'', CHR ''t''}
                   \<and> ((CHR ''r'' \<in> set mode) \<noteq> (CHR ''w'' \<in> set mode)))"

definition open_path ::
  "(string \<Rightarrow> string option) \<Rightarrow> string \<Rightarrow> string \<Rightarrow> world \<Rightarrow> (error + world handle) \<times> world" where
  "open_path expand ref mode w =
     (case expand ref of
        None \<Rightarrow> (Inl ResolutionError, w)
      | Some path \<Rightarrow>
          if \<not> mode_ok mode then (Inl ValueError, w)
          else if path \<in> set (denied w) then (Inl OSError, w)
          else if CHR ''w'' \<in> set mode then
            (Inr (text_writer path),
             w\<lparr>files := (files w)(path \<mapsto> []), open_files := path # open_files w\<rparr>)
          else if files w path = None then (Inl OSError, w)
          else (Inr (text_reader path), w\<lparr>open_files := path # open_files w\<rparr>))"

definition close_path :: "(string \<Rightarrow> string option) \<Rightarrow> string \<Rightarrow> world \<Rightarrow> world" where
  "close_path expand ref w =
     (case expand ref of
        None \<Rightarrow> w
      | Some path \<Rightarrow> w\<lparr>open_files := removeAll path (open_files w)\<rparr>)"

text \<open>
  Modelled from the spec: \<open>FileConnector\<close> (class \<open>hup.io.FileConnector\<close>, which
  \<open>plain.py\<close> imports; its source is not among the files of \<open>src/\<close>).
  Sections 3, 4.1 and 7 of the specification: a connector for a path expands the variables
  of the path and opens the file, failing with \<open>ResolutionError\<close> when the path cannot
  be expanded and with an \<open>IOError\<close> kind when the file is missing or permission is
  denied, and its \<open>close\<close> releases the file it opened; a connector for a stream that
  is already open returns that stream whatever the mode, and its \<open>close\<close> does nothing;
  a reference that is a connector is used unchanged; any other object is a
  \<open>ResolutionError\<close>.
\<close>

definition FileConnector :: "(string \<Rightarrow> string option) \<Rightarrow> fileref \<Rightarrow> error + world connector" where
  "FileConnector expand file =
     (case file of
        PathRef ref \<Rightarrow> Inr \<lparr> conn_open = open_path expand ref, conn_close = close_path expand ref \<rparr>
      | StreamRef fh \<Rightarrow> Inr \<lparr> conn_open = (\<lambda>mode w. (Inr fh, w)), conn_close = (\<lambda>w. w) \<rparr>
      | ConnRef cman \<Rightarrow> Inr cman
      | OtherRef \<Rightarrow> Inl ResolutionError)"

text \<open>
  Modelled from the spec: streams that are already open, as a caller may pass them
  (section 6 (b) of the specification): a text stream in reading mode whose iteration
  yields \<open>lines\<close>, and a binary stream. \<open>posix\<close> is a POSIX system with no files.
\<close>

definition text_stream :: "string list \<Rightarrow> world handle" where
  "text_stream lines =
     \<lparr> is_text = True,
       fh_read = (\<lambda>w. (Inr (concat lines), w)),
       fh_write = (\<lambda>text w. (Inl OSError, w)),
       fh_iter = (\<lambda>w. map Inr lines) \<rparr>"

definition binary_stream :: "world handle" where
  "binary_stream =
     \<lparr> is_text = False,
       fh_read = (\<lambda>w. (Inl OSError, w)),
       fh_write = (\<lambda>text w. (Inl OSError, w)),
       fh_iter = (\<lambda>w. []) \<rparr>"

definition posix :: world where
  "posix = \<lparr> os_linesep = [LF], files = Map.empty, denied = [], open_files = [] \<rparr>"

section \<open>The leading comment block, in the words of the specification\<close>

text \<open>
  Section 4.5 of the specification: a line is blank when it contains only whitespace; a
  comment line starts, after left-stripping, with the marker \<open>#\<close>; its text is what
  is left when the marker and the whitespace that follows it are stripped. The scan runs
  while lines are blank or comment lines and stops at the first line that is neither; blank
  lines are skipped; the texts of the comment lines are concatenated and the result is
  right-stripped.
\<close>

definition blank :: "string \<Rightarrow> bool" where
  "blank l = list_all isspace l"

definition comment_line :: "string \<Rightarrow> bool" where
  "comment_line l = startswith (lstrip l) ''#''"

definition comment_text :: "string \<Rightarrow> string" where
  "comment_text l = lstrip (drop 1 (lstrip l))"

definition get_comment_spec :: "string list \<Rightarrow> string" where
  "get_comment_spec ls =
     rstrip (concat (map comment_text
        (filter (\<lambda>l. \<not> blank l) (takeWhile (\<lambda>l. blank l \<or> comment_line l) ls))))"

section \<open>Properties of the scanning loops\<close>

lemma get_content_loop_unbounded:
  "get_content_loop 0 (map Inr ls) acc =
     Inr (acc @ map (rstrip_chars [CR, LF])
                   (filter (\<lambda>l. strip l \<noteq> [] \<and> \<not> startswith (strip l) ''#'') ls))"
  by (induction ls arbitrary: acc) (simp_all add: Let_def)

lemma get_content_loop_bounded:
  "0 < n \<Longrightarrow> int (length acc) \<le> n \<Longrightarrow>
   get_content_loop n (map Inr ls) acc =
     Inr (take (nat n) (acc @ map (rstrip_chars [CR, LF])
                   (filter (\<lambda>l. strip l \<noteq> [] \<and> \<not> startswith (strip l) ''#'') ls)))"
proof (induction ls arbitrary: acc)
  case Nil
  then show ?case by simp
next
  case (Cons l ls)
  show ?case
  proof (cases "int (length acc) \<ge> n")
    case True
    with Cons.prems have "length acc = nat n" by simp
    with True Cons.prems show ?thesis by simp
  next
    case False
    then have lt: "int (length acc) < n" by simp
    show ?thesis
    proof (cases "strip l = [] \<or> startswith (strip l) ''#''")
      case True
      with lt Cons.prems Cons.IH[of acc] show ?thesis by (auto simp: Let_def)
    next
      case False
      from lt have "int (length (acc @ [rstrip_chars [CR, LF] l])) \<le> n" by simp
      from Cons.IH[OF Cons.prems(1) this] False lt show ?thesis by (simp add: Let_def)
    qed
  qed
qed

lemma get_content_loop_negative:
  "n < 0 \<Longrightarrow> get_content_loop n (map Inr ls) [] = Inr []"
  by (cases ls) simp_all

lemma get_content_reads:
  assumes "FC fref = Inr cman" and "conn_open cman ''rt'' s = (Inr fh, s')" and "is_text fh"
  shows "get_content FC fref n s =
           ((get_content_loop n (fh_iter fh s') [], conn_close cman s'), [Open ''rt'', Yield, Close])"
  using assms by (simp add: get_content_def openx_def)

lemma rstrip_chars_split:
  "\<exists>tail. l = rstrip_chars cs l @ tail \<and> set tail \<subseteq> set cs
      \<and> (rstrip_chars cs l = [] \<or> last (rstrip_chars cs l) \<notin> set cs)"
proof -
  let ?P = "\<lambda>c. c \<in> set cs"
  have "rev (dropWhile ?P (rev l)) @ rev (takeWhile ?P (rev l))
          = rev (takeWhile ?P (rev l) @ dropWhile ?P (rev l))"
    by (simp only: rev_append)
  also have "\<dots> = l" by simp
  finally have a: "l = rstrip_chars cs l @ rev (takeWhile ?P (rev l))"
    by (simp add: rstrip_chars_def)
  have b: "set (rev (takeWhile ?P (rev l))) \<subseteq> set cs"
    by (auto dest: set_takeWhileD)
  have c: "rstrip_chars cs l = [] \<or> last (rstrip_chars cs l) \<notin> set cs"
  proof (cases "dropWhile ?P (rev l)")
    case Nil
    then show ?thesis by (simp add: rstrip_chars_def)
  next
    case (Cons x xs)
    then have "\<not> ?P (hd (dropWhile ?P (rev l)))" using hd_dropWhile[of ?P "rev l"] by simp
    with Cons show ?thesis by (simp add: rstrip_chars_def last_rev)
  qed
  from a b c show ?thesis by blast
qed

text \<open>
  Claim C5. With no limit, \<open>get_content\<close> returns, in the order of the file, the lines
  whose stripped form is neither empty nor starts with \<open>#\<close>, each without its
  trailing carriage returns and line feeds: what \<open>rstrip_chars\<close> removes from a line
  is a tail of carriage returns and line feeds, and what it leaves does not end in one, so
  all other whitespace of the line stays.
\<close>

theorem get_content_selects:
  assumes "FC fref = Inr cman" and "conn_open cman ''rt'' s = (Inr fh, s')" and "is_text fh"
      and "fh_iter fh s' = map Inr ls"
  shows "fst (fst (get_content FC fref 0 s)) =
           Inr (map (rstrip_chars [CR, LF])
                  (filter (\<lambda>l. strip l \<noteq> [] \<and> \<not> startswith (strip l) ''#'') ls))
         \<and> (\<forall>l. \<exists>tail. l = rstrip_chars [CR, LF] l @ tail \<and> set tail \<subseteq> {CR, LF}
                \<and> (rstrip_chars [CR, LF] l = [] \<or> last (rstrip_chars [CR, LF] l) \<notin> {CR, LF}))"
proof
  show "fst (fst (get_content FC fref 0 s)) =
           Inr (map (rstrip_chars [CR, LF])
                  (filter (\<lambda>l. strip l \<noteq> [] \<and> \<not> startswith (strip l) ''#'') ls))"
    using get_content_reads[where FC=FC and fref=fref and n=0, OF assms(1-3)] assms(4)
    by (simp add: get_content_loop_unbounded)
next
  show "\<forall>l. \<exists>tail. l = rstrip_chars [CR, LF] l @ tail \<and> set tail \<subseteq> {CR, LF}
                \<and> (rstrip_chars [CR, LF] l = [] \<or> last (rstrip_chars [CR, LF] l) \<notin> {CR, LF})"
    using rstrip_chars_split[of _ "[CR, LF]"] by simp
qed

text \<open>
  The lines \<open># h\<close>, an empty line, \<open>a,1\<close>, \<open># mid\<close>, \<open>b,2\<close> give
  \<open>a,1\<close> and \<open>b,2\<close>.
\<close>

theorem get_content_selects_witness:
  "fst (fst (get_content (FileConnector Some)
       (StreamRef (text_stream [''# h\<newline>'', ''\<newline>'', ''a,1\<newline>'', ''# mid\<newline>'', ''b,2\<newline>''])) 0 posix))
     = Inr [''a,1'', ''b,2'']"
proof -
  let ?ls = "[''# h\<newline>'', ''\<newline>'', ''a,1\<newline>'', ''# mid\<newline>'', ''b,2\<newline>'']"
  let ?cman = "\<lparr> conn_open = (\<lambda>mode w. (Inr (text_stream ?ls), w)), conn_close = (\<lambda>w. w) \<rparr>"
  have h1: "FileConnector Some (StreamRef (text_stream ?ls)) = Inr ?cman"
    by (simp add: FileConnector_def)
  have h2: "conn_open ?cman ''rt'' posix = (Inr (text_stream ?ls), posix)" by simp
  have h3: "is_text (text_stream ?ls)" by (simp add: text_stream_def)
  have h4: "fh_iter (text_stream ?ls) posix = map Inr ?ls" by (simp add: text_stream_def)
  from get_content_selects[where FC="FileConnector Some" and fref="StreamRef (text_stream ?ls)", OF h1 h2 h3 h4] show ?thesis
    by (simp add: strip_def lstrip_def rstrip_def rstrip_chars_def startswith_def isspace_def)
qed

section \<open>A stream that is already open, as file reference\<close>

lemma example_stream:
  "FileConnector expand (StreamRef (text_stream ls)) =
     Inr \<lparr> conn_open = (\<lambda>mode w. (Inr (text_stream ls), w)), conn_close = (\<lambda>w. w) \<rparr>"
  "conn_open \<lparr> conn_open = (\<lambda>mode w. (Inr (text_stream ls), w)), conn_close = (\<lambda>w. w) \<rparr> m w
     = (Inr (text_stream ls), w)"
  "is_text (text_stream ls)"
  "fh_iter (text_stream ls) w = map Inr ls"
  by (simp_all add: FileConnector_def text_stream_def)

section \<open>The limit of \<open>get_content\<close>\<close>

text \<open>
  Claim C6, amended. For a positive limit \<open>n\<close>, \<open>get_content\<close> returns the first
  \<open>n\<close> content lines, so at most \<open>n\<close> of them; the limit zero returns all content
  lines; a negative limit returns the empty list, because the loop leaves as soon as
  \<open>len(content) >= lines\<close> holds.
\<close>

theorem get_content_limit:
  assumes "FC fref = Inr cman" and "conn_open cman ''rt'' s = (Inr fh, s')" and "is_text fh"
      and "fh_iter fh s' = map Inr ls"
  shows "\<exists>c. fst (fst (get_content FC fref n s)) = Inr c
           \<and> (0 < n \<longrightarrow> int (length c) \<le> n
                 \<and> c = take (nat n) (map (rstrip_chars [CR, LF])
                          (filter (\<lambda>l. strip l \<noteq> [] \<and> \<not> startswith (strip l) ''#'') ls)))
           \<and> (n = 0 \<longrightarrow> c = map (rstrip_chars [CR, LF])
                          (filter (\<lambda>l. strip l \<noteq> [] \<and> \<not> startswith (strip l) ''#'') ls))
           \<and> (n < 0 \<longrightarrow> c = [])"
proof -
  have r: "fst (fst (get_content FC fref n s)) = get_content_loop n (map Inr ls) []"
    using get_content_reads[where FC=FC and fref=fref and n=n, OF assms(1-3)] assms(4) by simp
  consider "0 < n" | "n = 0" | "n < 0" by linarith
  then show ?thesis
  proof cases
    case 1
    then show ?thesis using r get_content_loop_bounded[of n "[]" ls] by simp
  next
    case 2
    then show ?thesis using r get_content_loop_unbounded[of ls "[]"] by simp
  next
    case 3
    then show ?thesis using r get_content_loop_negative[of n ls] by simp
  qed
qed

text \<open>With the limit 1 the lines of the example give \<open>a,1\<close> alone.\<close>

theorem get_content_limit_witness:
  "fst (fst (get_content (FileConnector Some)
       (StreamRef (text_stream [''# h\<newline>'', ''\<newline>'', ''a,1\<newline>'', ''# mid\<newline>'', ''b,2\<newline>''])) 1 posix))
     = Inr [''a,1'']"
proof -
  let ?ls = "[''# h\<newline>'', ''\<newline>'', ''a,1\<newline>'', ''# mid\<newline>'', ''b,2\<newline>'']"
  from get_content_limit[where FC="FileConnector Some" and fref="StreamRef (text_stream ?ls)"
        and n=1 and s=posix, OF example_stream]
  show ?thesis
    by (simp add: strip_def lstrip_def rstrip_def rstrip_chars_def startswith_def isspace_def)
qed

text \<open>
  Claim C6 as stated fails at the non-zero limit \<open>-1\<close>: the result is the empty list,
  whose length 0 is not at most \<open>-1\<close>.
\<close>

theorem get_content_limit_counterexample:
  "(-1::int) \<noteq> 0 \<and>
   fst (fst (get_content (FileConnector Some)
       (StreamRef (text_stream [''# h\<newline>'', ''\<newline>'', ''a,1\<newline>'', ''# mid\<newline>'', ''b,2\<newline>''])) (-1) posix))
     = Inr [] \<and> \<not> int (length ([] :: string list)) \<le> -1"
  by (simp add: get_content_def openx_def FileConnector_def text_stream_def)

text \<open>
  Claim C9. For a positive limit \<open>n\<close>, the result of \<open>get_content\<close> is the result
  without limit, cut to its first \<open>min n k\<close> elements, \<open>k\<close> the length of the
  result without limit.
\<close>

theorem get_content_truncates:
  assumes "FC fref = Inr cman" and "conn_open cman ''rt'' s = (Inr fh, s')" and "is_text fh"
      and "fh_iter fh s' = map Inr ls" and "0 < n"
  shows "\<exists>c0. fst (fst (get_content FC fref 0 s)) = Inr c0
           \<and> fst (fst (get_content FC fref n s)) = Inr (take (min (nat n) (length c0)) c0)"
proof -
  have r: "fst (fst (get_content FC fref m s)) = get_content_loop m (map Inr ls) []" for m
    using get_content_reads[where FC=FC and fref=fref and n=m, OF assms(1-3)] assms(4) by simp
  let ?c0 = "map (rstrip_chars [CR, LF])
               (filter (\<lambda>l. strip l \<noteq> [] \<and> \<not> startswith (strip l) ''#'') ls)"
  have a: "fst (fst (get_content FC fref 0 s)) = Inr ?c0"
    using r[of 0] by (simp add: get_content_loop_unbounded)
  have "fst (fst (get_content FC fref n s)) = Inr (take (nat n) ?c0)"
    using r[of n] get_content_loop_bounded[of n "[]" ls] assms(5) by simp
  also have "take (nat n) ?c0 = take (min (nat n) (length ?c0)) ?c0"
    by (simp add: min_def)
  finally show ?thesis using a by blast
qed

theorem get_content_truncates_witness:
  "fst (fst (get_content (FileConnector Some)
       (StreamRef (text_stream [''# h\<newline>'', ''\<newline>'', ''a,1\<newline>'', ''# mid\<newline>'', ''b,2\<newline>''])) 0 posix))
     = Inr [''a,1'', ''b,2''] \<and>
   fst (fst (get_content (FileConnector Some)
       (StreamRef (text_stream [''# h\<newline>'', ''\<newline>'', ''a,1\<newline>'', ''# mid\<newline>'', ''b,2\<newline>''])) 1 posix))
     = Inr (take (min 1 2) [''a,1'', ''b,2''])"
proof -
  let ?ls = "[''# h\<newline>'', ''\<newline>'', ''a,1\<newline>'', ''# mid\<newline>'', ''b,2\<newline>'']"
  have pos: "(0::int) < 1" by simp
  have c0: "fst (fst (get_content (FileConnector Some) (StreamRef (text_stream ?ls)) 0 posix))
              = Inr [''a,1'', ''b,2'']"
    by (simp add: get_content_def openx_def FileConnector_def text_stream_def
          strip_def lstrip_def rstrip_def rstrip_chars_def startswith_def isspace_def)
  from get_content_truncates[where FC="FileConnector Some" and fref="StreamRef (text_stream ?ls)"
        and n=1 and s=posix, OF example_stream pos] c0
  show ?thesis by simp
qed

section \<open>\<open>get_comment\<close> and the leading comment block\<close>

lemma blank_iff: "rstrip (lstrip l) = [] \<longleftrightarrow> blank l"
proof -
  have "rstrip (lstrip l) = [] \<longleftrightarrow> (\<forall>c \<in> set (dropWhile isspace l). isspace c)"
    by (simp add: rstrip_def lstrip_def dropWhile_eq_Nil_conv)
  also have "\<dots> \<longleftrightarrow> dropWhile isspace l = []"
  proof
    assume a: "\<forall>c \<in> set (dropWhile isspace l). isspace c"
    show "dropWhile isspace l = []"
    proof (cases "dropWhile isspace l")
      case Nil
      then show ?thesis .
    next
      case (Cons x xs)
      then have "\<not> isspace (hd (dropWhile isspace l))"
        using hd_dropWhile[of isspace l] by simp
      with a Cons show ?thesis by simp
    qed
  next
    assume "dropWhile isspace l = []"
    then show "\<forall>c \<in> set (dropWhile isspace l). isspace c" by (simp only: set_simps ball_empty)
  qed
  also have "\<dots> \<longleftrightarrow> blank l"
    by (simp add: blank_def dropWhile_eq_Nil_conv list_all_iff)
  finally show ?thesis .
qed

lemma get_comment_loop_spec:
  "get_comment_loop (map Inr ls) acc =
     Inr (acc @ map comment_text
                  (filter (\<lambda>l. \<not> blank l) (takeWhile (\<lambda>l. blank l \<or> comment_line l) ls)))"
  by (induction ls arbitrary: acc)
     (simp_all add: Let_def blank_iff comment_line_def comment_text_def)

lemma get_comment_reads:
  assumes "FC fref = Inr cman" and "conn_open cman ''rt'' s = (Inr fh, s')" and "is_text fh"
  shows "get_comment FC fref s =
           ((map_sum id (\<lambda>lines. rstrip (join_empty lines)) (get_comment_loop (fh_iter fh s') []),
             conn_close cman s'),
            [Open ''rt'', Yield, Close])"
  using assms by (simp add: get_comment_def openx_def)

lemma get_comment_eq_spec:
  assumes "FC fref = Inr cman" and "conn_open cman ''rt'' s = (Inr fh, s')" and "is_text fh"
      and "fh_iter fh s' = map Inr ls"
  shows "fst (fst (get_comment FC fref s)) = Inr (get_comment_spec ls)"
  using get_comment_reads[where FC=FC and fref=fref, OF assms(1-3)] assms(4)
  by (simp add: get_comment_loop_spec get_comment_spec_def join_empty_def)

lemma no_leading_comment:
  "(case find (\<lambda>l. \<not> blank l) ls of None \<Rightarrow> True | Some l \<Rightarrow> \<not> comment_line l)
   \<Longrightarrow> filter (\<lambda>l. \<not> blank l) (takeWhile (\<lambda>l. blank l \<or> comment_line l) ls) = []"
  by (induction ls) (auto split: if_splits)

text \<open>
  Claim C4. \<open>get_comment\<close> returns the leading comment block as section 4.5 of the
  specification words it (\<open>get_comment_spec\<close>): scanning from the start, blank lines
  skipped, the scan stopped at the first line that is neither blank nor a comment line and
  that line left out, each comment line without its marker and the whitespace after it,
  the concatenation right-stripped. When the first non-blank line of the file, if there is
  one, is not a comment line, the result is the empty string.
\<close>

theorem get_comment_header:
  assumes "FC fref = Inr cman" and "conn_open cman ''rt'' s = (Inr fh, s')" and "is_text fh"
      and "fh_iter fh s' = map Inr ls"
  shows "fst (fst (get_comment FC fref s)) = Inr (get_comment_spec ls)
         \<and> ((case find (\<lambda>l. \<not> blank l) ls of None \<Rightarrow> True | Some l \<Rightarrow> \<not> comment_line l)
              \<longrightarrow> fst (fst (get_comment FC fref s)) = Inr [])"
  using get_comment_eq_spec[where FC=FC and fref=fref, OF assms]
  by (simp add: get_comment_spec_def no_leading_comment rstrip_def)

text \<open>
  The lines \<open># Title\<close>, \<open># desc\<close>, an empty line, \<open># more\<close>, \<open>data\<close> give
  \<open>Title\<close>, \<open>desc\<close>, \<open>more\<close> on three lines; a file that starts with an empty line
  and \<open>data\<close> gives the empty string.
\<close>

theorem get_comment_header_witness:
  "fst (fst (get_comment (FileConnector Some)
      (StreamRef (text_stream [''# Title\<newline>'', ''# desc\<newline>'', ''\<newline>'', ''# more\<newline>'', ''data\<newline>''])) posix))
     = Inr ''Title\<newline>desc\<newline>more''
   \<and> fst (fst (get_comment (FileConnector Some)
      (StreamRef (text_stream [''\<newline>'', ''data\<newline>'', ''# late\<newline>''])) posix)) = Inr []"
proof -
  let ?a = "[''# Title\<newline>'', ''# desc\<newline>'', ''\<newline>'', ''# more\<newline>'', ''data\<newline>'']"
  let ?b = "[''\<newline>'', ''data\<newline>'', ''# late\<newline>'']"
  have nb: "(case find (\<lambda>l. \<not> blank l) ?b of None \<Rightarrow> True | Some l \<Rightarrow> \<not> comment_line l)"
    by (simp add: blank_def comment_line_def isspace_def lstrip_def startswith_def)
  from get_comment_header[where FC="FileConnector Some" and fref="StreamRef (text_stream ?a)"
        and s=posix, OF example_stream]
  have a: "fst (fst (get_comment (FileConnector Some) (StreamRef (text_stream ?a)) posix))
             = Inr ''Title\<newline>desc\<newline>more''"
    by (simp add: get_comment_spec_def blank_def comment_line_def comment_text_def
          isspace_def lstrip_def rstrip_def startswith_def)
  from get_comment_header[where FC="FileConnector Some" and fref="StreamRef (text_stream ?b)"
        and s=posix, OF example_stream] nb
  have b: "fst (fst (get_comment (FileConnector Some) (StreamRef (text_stream ?b)) posix)) = Inr []"
    by blast
  from a b show ?thesis by simp
qed


lemma marker_only_line:
  assumes "lstrip l = CHR ''#'' # ws" and "list_all isspace ws"
  shows "\<not> blank l" and "comment_line l" and "comment_text l = []"
proof -
  have sp: "\<forall>c \<in> set ws. isspace c" using assms(2) by (simp add: list_all_iff)
  have ns: "\<not> isspace (CHR ''#'')" by (simp add: isspace_def)
  have "dropWhile isspace (rev ws @ [CHR ''#'']) = dropWhile isspace [CHR ''#'']"
    by (rule dropWhile_append2) (use sp in simp)
  then have "dropWhile isspace (rev ws @ [CHR ''#'']) = [CHR ''#'']"
    using ns by simp
  then have "rstrip (lstrip l) \<noteq> []" using assms(1) by (simp add: rstrip_def)
  then show "\<not> blank l" by (simp add: blank_iff)
  show "comment_line l" using assms(1) by (simp add: comment_line_def startswith_def)
  show "comment_text l = []" using assms(1) sp by (simp add: comment_text_def lstrip_def)
qed

lemma silent_line_dropped:
  assumes "\<not> blank l" and "comment_line l" and "comment_text l = []"
  shows "concat (map comment_text
            (filter (\<lambda>l. \<not> blank l) (takeWhile (\<lambda>l. blank l \<or> comment_line l) (pre @ [l] @ post))))
         = concat (map comment_text
            (filter (\<lambda>l. \<not> blank l) (takeWhile (\<lambda>l. blank l \<or> comment_line l) (pre @ post))))"
proof (cases "\<forall>x \<in> set pre. blank x \<or> comment_line x")
  case True
  then show ?thesis using assms by (simp add: takeWhile_append2)
next
  case False
  then obtain x where "x \<in> set pre" and "\<not> (blank x \<or> comment_line x)" by blast
  then show ?thesis by (simp add: takeWhile_append1)
qed

text \<open>
  Claim C10. A line that is, after left-stripping, the marker \<open>#\<close> followed by
  whitespace only (its line terminator included) adds the empty string to the accumulator
  of \<open>get_comment\<close>; the header of the file is the header of the file without that line,
  so the line adds neither a blank line nor a line break to the header.
\<close>

theorem get_comment_marker_only:
  assumes "FC fref = Inr cman" and "conn_open cman ''rt'' s = (Inr fh, s')" and "is_text fh"
      and "fh_iter fh s' = map Inr (pre @ [l] @ post)"
      and "lstrip l = CHR ''#'' # ws" and "list_all isspace ws"
  shows "get_comment_loop [Inr l] acc = Inr (acc @ [[]])
         \<and> fst (fst (get_comment FC fref s)) = Inr (get_comment_spec (pre @ post))
         \<and> get_comment (FileConnector expand) (StreamRef (text_stream (pre @ [l] @ post))) w
             = get_comment (FileConnector expand) (StreamRef (text_stream (pre @ post))) w"
proof -
  note m = marker_only_line[OF assms(5,6)]
  have eq: "get_comment_spec (pre @ [l] @ post) = get_comment_spec (pre @ post)"
    unfolding get_comment_spec_def using silent_line_dropped[OF m] by simp
  have a: "get_comment_loop [Inr l] acc = Inr (acc @ [[]])"
    using get_comment_loop_spec[of "[l]" acc] m by simp
  have b: "fst (fst (get_comment FC fref s)) = Inr (get_comment_spec (pre @ post))"
    using get_comment_eq_spec[where FC=FC and fref=fref, OF assms(1-4)] eq by simp
  have r: "get_comment (FileConnector expand) (StreamRef (text_stream ls)) w
             = ((Inr (get_comment_spec ls), w), [Open ''rt'', Yield, Close])" for ls
    using get_comment_reads[where FC="FileConnector expand" and fref="StreamRef (text_stream ls)"
            and s=w, OF example_stream(1-3)]
    by (simp add: example_stream(4) get_comment_loop_spec get_comment_spec_def join_empty_def)
  from a b r[of "pre @ [l] @ post"] r[of "pre @ post"] eq show ?thesis by simp
qed

text \<open>
  Between \<open># a\<close> and \<open># b\<close>, the lines \<open>#\<close> and \<open>#\<close> with three blanks leave
  the header \<open>a\<close>, \<open>b\<close> on two lines.
\<close>

theorem get_comment_marker_only_witness:
  "fst (fst (get_comment (FileConnector Some)
      (StreamRef (text_stream [''# a\<newline>'', ''#\<newline>'', ''#   \<newline>'', ''# b\<newline>''])) posix))
     = Inr ''a\<newline>b''
   \<and> get_comment (FileConnector Some)
        (StreamRef (text_stream [''# a\<newline>'', ''#\<newline>'', ''# b\<newline>''])) posix
     = get_comment (FileConnector Some) (StreamRef (text_stream [''# a\<newline>'', ''# b\<newline>''])) posix"
proof -
  have l1: "lstrip ''#\<newline>'' = CHR ''#'' # ''\<newline>''" by (simp add: lstrip_def isspace_def)
  have l2: "list_all isspace ''\<newline>''" by (simp add: isspace_def)
  have i: "fh_iter (text_stream [''# a\<newline>'', ''#\<newline>'', ''# b\<newline>'']) posix
             = map Inr ([''# a\<newline>''] @ [''#\<newline>''] @ [''# b\<newline>''])"
    by (simp add: text_stream_def)
  from get_comment_marker_only[where FC="FileConnector Some"
        and fref="StreamRef (text_stream [''# a\<newline>'', ''#\<newline>'', ''# b\<newline>''])" and s=posix
        and pre="[''# a\<newline>'']" and post="[''# b\<newline>'']" and expand=Some and w=posix,
        OF example_stream(1-3) i l1 l2]
  have b: "get_comment (FileConnector Some)
        (StreamRef (text_stream [''# a\<newline>'', ''#\<newline>'', ''# b\<newline>''])) posix
     = get_comment (FileConnector Some) (StreamRef (text_stream [''# a\<newline>'', ''# b\<newline>''])) posix"
    by simp
  have a: "fst (fst (get_comment (FileConnector Some)
      (StreamRef (text_stream [''# a\<newline>'', ''#\<newline>'', ''#   \<newline>'', ''# b\<newline>''])) posix))
     = Inr ''a\<newline>b''"
    by (simp add: get_comment_def openx_def FileConnector_def text_stream_def join_empty_def
          isspace_def lstrip_def rstrip_def startswith_def)
  from a b show ?thesis by simp
qed

section \<open>\<open>openx\<close>: closing, validation and the mode\<close>

text \<open>
  Claim C2, amended. Once \<open>cman.open\<close> has returned a stream, \<open>openx\<close> calls
  \<open>cman.close()\<close> exactly once, as its last action, on each way out: after the body
  returned, after the body raised (the error of the body reaches the caller unchanged, with
  the connector closed), and when the stream is not a text stream (\<open>ValueError\<close>).
  When \<open>cman.open\<close> or \<open>FileConnector(file)\<close> raises, the error reaches the caller
  unchanged and \<open>close\<close> is not called.
\<close>

theorem openx_closes_once:
  "(\<forall>cman fh s'. FC fref = Inr cman
        \<and> conn_open cman (if CHR ''t'' \<notin> set mode then mode @ ''t'' else mode) s = (Inr fh, s')
      \<longrightarrow> count_list (snd (openx FC fref mode body s)) Close = 1
          \<and> last (snd (openx FC fref mode body s)) = Close
          \<and> fst (openx FC fref mode body s)
              = (if is_text fh then (fst (body fh s'), conn_close cman (snd (body fh s')))
                 else (Inl ValueError, conn_close cman s')))
   \<and> (\<forall>cman e s'. FC fref = Inr cman
        \<and> conn_open cman (if CHR ''t'' \<notin> set mode then mode @ ''t'' else mode) s = (Inl e, s')
      \<longrightarrow> fst (openx FC fref mode body s) = (Inl e, s')
          \<and> count_list (snd (openx FC fref mode body s)) Close = 0)
   \<and> (\<forall>e. FC fref = Inl e
      \<longrightarrow> fst (openx FC fref mode body s) = (Inl e, s)
          \<and> count_list (snd (openx FC fref mode body s)) Close = 0)"
  by (auto simp: openx_def Let_def split: prod.splits)

text \<open>
  A body that raises on a text stream, a binary stream, a missing file and an object that
  is no file reference.
\<close>

theorem openx_closes_once_witness:
  "count_list (snd (openx (FileConnector Some) (StreamRef (text_stream [''a''])) ''r''
        (\<lambda>fh w. (Inl (OtherError ''raised in the scope'') :: error + string, w)) posix)) Close = 1
   \<and> fst (openx (FileConnector Some) (StreamRef (text_stream [''a''])) ''r''
        (\<lambda>fh w. (Inl (OtherError ''raised in the scope'') :: error + string, w)) posix)
       = (Inl (OtherError ''raised in the scope''), posix)
   \<and> count_list (snd (openx (FileConnector Some) (StreamRef binary_stream) ''r''
        (\<lambda>fh. fh_read fh) posix)) Close = 1
   \<and> count_list (snd (openx (FileConnector Some) (PathRef ''missing'') ''r''
        (\<lambda>fh. fh_read fh) posix)) Close = 0
   \<and> count_list (snd (openx (FileConnector Some) OtherRef ''r''
        (\<lambda>fh. fh_read fh) posix)) Close = 0"
proof -
  let ?raise = "\<lambda>(fh :: world handle) (w :: world). (Inl (OtherError ''raised in the scope'') :: error + string, w)"
  let ?read = "\<lambda>fh :: world handle. fh_read fh"
  have a: "count_list (snd (openx (FileConnector Some) (StreamRef (text_stream [''a''])) ''r'' ?raise posix)) Close = 1
      \<and> fst (openx (FileConnector Some) (StreamRef (text_stream [''a''])) ''r'' ?raise posix)
       = (Inl (OtherError ''raised in the scope''), posix)"
    using openx_closes_once[where FC="FileConnector Some" and fref="StreamRef (text_stream [''a''])"
        and mode="''r''" and body="?raise" and s=posix]
    by (simp add: FileConnector_def text_stream_def)
  have b: "count_list (snd (openx (FileConnector Some) (StreamRef binary_stream) ''r'' ?read posix)) Close = 1"
    using openx_closes_once[where FC="FileConnector Some" and fref="StreamRef binary_stream"
        and mode="''r''" and body="?read" and s=posix]
    by (simp add: FileConnector_def)
  have c: "count_list (snd (openx (FileConnector Some) (PathRef ''missing'') ''r'' ?read posix)) Close = 0"
    using openx_closes_once[where FC="FileConnector Some" and fref="PathRef ''missing''"
        and mode="''r''" and body="?read" and s=posix]
    by (simp add: FileConnector_def open_path_def mode_ok_def posix_def)
  have d: "count_list (snd (openx (FileConnector Some) OtherRef ''r'' ?read posix)) Close = 0"
    using openx_closes_once[where FC="FileConnector Some" and fref="OtherRef"
        and mode="''r''" and body="?read" and s=posix]
    by (simp add: FileConnector_def)
  from a b c d show ?thesis by simp
qed

text \<open>
  Claim C2 as stated fails when the opening fails: for the path of a missing file,
  \<open>cman.open\<close> raises \<open>OSError\<close> and \<open>openx\<close> never calls \<open>close\<close>.
  The same with a connector that counts the calls of its \<open>close\<close> and whose
  \<open>open\<close> raises: the count stays 0.
\<close>

theorem openx_closes_once_counterexample:
  "openx (FileConnector Some) (PathRef ''missing'') ''r'' (\<lambda>fh. fh_read fh) posix
     = ((Inl OSError, posix), [Open ''rt''])
   \<and> count_list [Open ''rt''] Close \<noteq> 1
   \<and> openx Inr \<lparr> conn_open = (\<lambda>mode n. (Inl OSError, n)), conn_close = Suc \<rparr> ''r''
         (\<lambda>fh. fh_read fh) (0 :: nat)
     = ((Inl OSError, 0), [Open ''rt''])"
  by (simp add: openx_def FileConnector_def open_path_def mode_ok_def posix_def)

text \<open>
  Claim C3. When the stream that \<open>cman.open\<close> returns is not a text stream,
  \<open>openx\<close> closes the connector and raises \<open>ValueError\<close> without handing the stream
  to the body: the body is never applied to a stream that is not a text stream.
\<close>

theorem openx_rejects_non_text:
  assumes "FC fref = Inr cman"
      and "conn_open cman (if CHR ''t'' \<notin> set mode then mode @ ''t'' else mode) s = (Inr fh, s')"
      and "\<not> is_text fh"
  shows "openx FC fref mode body s
           = ((Inl ValueError, conn_close cman s'),
              [Open (if CHR ''t'' \<notin> set mode then mode @ ''t'' else mode), Close])
         \<and> Yield \<notin> set (snd (openx FC fref mode body s))
         \<and> openx FC fref mode body s
             = openx FC fref mode (\<lambda>fh. if is_text fh then body fh else other fh) s"
  using assms by (simp add: openx_def Let_def)

text \<open>A binary stream passed as file reference.\<close>

theorem openx_rejects_non_text_witness:
  "openx (FileConnector Some) (StreamRef binary_stream) ''r'' (\<lambda>fh. fh_read fh) posix
     = ((Inl ValueError, posix), [Open ''rt'', Close])"
proof -
  let ?cman = "\<lparr> conn_open = (\<lambda>mode w. (Inr binary_stream, w)), conn_close = (\<lambda>w. w) \<rparr>"
  have h1: "FileConnector Some (StreamRef binary_stream) = Inr ?cman"
    by (simp add: FileConnector_def)
  have h2: "conn_open ?cman (if CHR ''t'' \<notin> set ''r'' then ''r'' @ ''t'' else ''r'') posix
              = (Inr binary_stream, posix)" by simp
  have h3: "\<not> is_text binary_stream" by (simp add: binary_stream_def)
  from openx_rejects_non_text[where FC="FileConnector Some" and fref="StreamRef binary_stream"
        and mode="''r''" and body="\<lambda>fh. fh_read fh", OF h1 h2 h3]
  show ?thesis by simp
qed

text \<open>
  Claim C7. Whenever \<open>openx\<close> has a connector it calls \<open>open\<close>, and every call of
  \<open>open\<close> passes the mode with the marker \<open>t\<close>: the mode itself when it has the
  marker, the mode followed by \<open>t\<close> otherwise. A stream that reaches the body is a text
  stream.
\<close>

theorem openx_text_mode:
  "(\<forall>cman. FC fref = Inr cman \<longrightarrow>
       (\<exists>evs. snd (openx FC fref mode body s)
                = Open (if CHR ''t'' \<notin> set mode then mode @ ''t'' else mode) # evs))
   \<and> (\<forall>m. Open m \<in> set (snd (openx FC fref mode body s)) \<longrightarrow>
         CHR ''t'' \<in> set m \<and> m = (if CHR ''t'' \<notin> set mode then mode @ ''t'' else mode))
   \<and> (\<forall>cman fh s'. FC fref = Inr cman
         \<and> conn_open cman (if CHR ''t'' \<notin> set mode then mode @ ''t'' else mode) s = (Inr fh, s')
         \<and> Yield \<in> set (snd (openx FC fref mode body s)) \<longrightarrow> is_text fh)"
  by (auto simp: openx_def Let_def split: sum.splits prod.splits if_splits)

text \<open>The modes \<open>r\<close> and \<open>w\<close> are passed on as \<open>rt\<close> and \<open>wt\<close>.\<close>

theorem openx_text_mode_witness:
  "Open ''rt'' \<in> set (snd (openx (FileConnector Some) (StreamRef (text_stream [''a''])) ''r''
        (\<lambda>fh. fh_read fh) posix))
   \<and> Open ''wt'' \<in> set (snd (openx (FileConnector Some) (PathRef ''p'') ''w''
        (\<lambda>fh. fh_write fh ''x'') posix))
   \<and> CHR ''t'' \<in> set ''rt'' \<and> CHR ''t'' \<in> set ''wt''"
proof -
  have a: "Open ''rt'' \<in> set (snd (openx (FileConnector Some) (StreamRef (text_stream [''a''])) ''r''
        (\<lambda>fh. fh_read fh) posix))"
    using openx_text_mode[where FC="FileConnector Some" and fref="StreamRef (text_stream [''a''])"
        and mode="''r''" and body="\<lambda>fh. fh_read fh" and s=posix]
    by (auto simp: FileConnector_def)
  have b: "Open ''wt'' \<in> set (snd (openx (FileConnector Some) (PathRef ''p'') ''w''
        (\<lambda>fh. fh_write fh ''x'') posix))"
    using openx_text_mode[where FC="FileConnector Some" and fref="PathRef ''p''"
        and mode="''w''" and body="\<lambda>fh. fh_write fh ''x''" and s=posix]
    by (auto simp: FileConnector_def)
  from a b show ?thesis by simp
qed

section \<open>\<open>save\<close> followed by \<open>load\<close>\<close>

lemma universal_newlines_other:
  "CR \<noteq> c \<Longrightarrow> universal_newlines (c # cs) = c # universal_newlines cs"
  by (cases cs) auto

lemma universal_newlines_id:
  "CR \<notin> set T \<Longrightarrow> universal_newlines T = T"
  by (induction T) (simp_all add: universal_newlines_other)

lemma translate_newlines_posix: "translate_newlines [LF] T = T"
  by (induction T) (simp_all add: translate_newlines_def)

lemma universal_translate_windows:
  "CR \<notin> set T \<Longrightarrow> universal_newlines (translate_newlines [CR, LF] T) = T"
proof (induction T)
  case Nil
  then show ?case by (simp add: translate_newlines_def)
next
  case (Cons c cs)
  then have ih: "universal_newlines (translate_newlines [CR, LF] cs) = cs" and "CR \<noteq> c"
    by auto
  show ?case
  proof (cases "c = LF")
    case True
    have "translate_newlines [CR, LF] (c # cs) = CR # LF # translate_newlines [CR, LF] cs"
      using True by (simp add: translate_newlines_def)
    then show ?thesis using ih True by simp
  next
    case False
    have "translate_newlines [CR, LF] (c # cs) = c # translate_newlines [CR, LF] cs"
      using False by (simp add: translate_newlines_def)
    then show ?thesis using ih \<open>CR \<noteq> c\<close> by (simp add: universal_newlines_other)
  qed
qed

lemma save_path:
  assumes "expand p = Some q" and "q \<notin> set (denied w)"
  shows "fst (save (FileConnector expand) T (PathRef p) w) =
           (Inr (), w\<lparr>files := (files w)(q \<mapsto> translate_newlines (os_linesep w) T),
                      open_files := removeAll q (open_files w)\<rparr>)"
  using assms
  by (simp add: save_def openx_def FileConnector_def open_path_def close_path_def mode_ok_def
        text_writer_def)

lemma load_path:
  assumes "expand p = Some q" and "q \<notin> set (denied w)" and "files w q = Some stored"
  shows "fst (fst (load (FileConnector expand) (PathRef p) w)) = Inr (universal_newlines stored)"
  using assms
  by (simp add: load_def openx_def FileConnector_def open_path_def close_path_def mode_ok_def
        text_reader_def)

text \<open>
  Claim C1, amended. For a path that can be opened for writing, \<open>save\<close> succeeds and
  \<open>load\<close> then returns the text as the text stream translates it: written with
  \<open>\n\<close> replaced by \<open>os.linesep\<close>, read with universal newlines. The two functions
  add and remove nothing themselves. When the text has no carriage return and
  \<open>os.linesep\<close> is \<open>\n\<close> or \<open>\r\n\<close>, \<open>load\<close> returns exactly the text.
\<close>

theorem save_load_roundtrip:
  assumes "expand p = Some q" and "q \<notin> set (denied w)"
  shows "\<exists>w'. fst (save (FileConnector expand) T (PathRef p) w) = (Inr (), w')
           \<and> fst (fst (load (FileConnector expand) (PathRef p) w'))
               = Inr (universal_newlines (translate_newlines (os_linesep w) T))
           \<and> (CR \<notin> set T \<and> (os_linesep w = [LF] \<or> os_linesep w = [CR, LF])
                \<longrightarrow> fst (fst (load (FileConnector expand) (PathRef p) w')) = Inr T)"
proof -
  let ?w' = "w\<lparr>files := (files w)(q \<mapsto> translate_newlines (os_linesep w) T),
                open_files := removeAll q (open_files w)\<rparr>"
  have s: "fst (save (FileConnector expand) T (PathRef p) w) = (Inr (), ?w')"
    by (rule save_path[where expand=expand and p=p, OF assms])
  have l: "fst (fst (load (FileConnector expand) (PathRef p) ?w'))
             = Inr (universal_newlines (translate_newlines (os_linesep w) T))"
    using load_path[where expand=expand and p=p and q=q and w="?w'"
            and stored="translate_newlines (os_linesep w) T"] assms
    by simp
  have t: "universal_newlines (translate_newlines (os_linesep w) T) = T"
    if "CR \<notin> set T" and "os_linesep w = [LF] \<or> os_linesep w = [CR, LF]"
    using that
    by (auto simp: translate_newlines_posix universal_newlines_id universal_translate_windows)
  from s l t show ?thesis by auto
qed

text \<open>A text of two lines, saved and loaded on a POSIX system.\<close>

theorem save_load_roundtrip_witness:
  "fst (fst (save (FileConnector Some) ''a\<newline>b\<newline>'' (PathRef ''p'') posix)) = Inr ()
   \<and> fst (fst (load (FileConnector Some) (PathRef ''p'')
          (snd (fst (save (FileConnector Some) ''a\<newline>b\<newline>'' (PathRef ''p'') posix)))))
       = Inr ''a\<newline>b\<newline>''"
proof -
  have h1: "Some ''p'' = Some ''p''" by simp
  have h2: "''p'' \<notin> set (denied posix)" by (simp add: posix_def)
  have h3: "CR \<notin> set ''a\<newline>b\<newline>''" by simp
  have h4: "os_linesep posix = [LF]" by (simp add: posix_def)
  from save_load_roundtrip[where expand=Some and p="''p''" and q="''p''" and w=posix
        and T="''a\<newline>b\<newline>''", OF h1 h2] h3 h4
  show ?thesis by auto
qed

text \<open>
  Claim C1 as stated fails for a text with a carriage return: the text
  \<open>a\rb\<close> is written as it is and read back as \<open>a\nb\<close>.
\<close>

theorem save_load_roundtrip_counterexample:
  "fst (fst (save (FileConnector Some) [CHR ''a'', CR, CHR ''b''] (PathRef ''p'') posix)) = Inr ()
   \<and> fst (fst (load (FileConnector Some) (PathRef ''p'')
          (snd (fst (save (FileConnector Some) [CHR ''a'', CR, CHR ''b''] (PathRef ''p'') posix)))))
       = Inr [CHR ''a'', LF, CHR ''b'']
   \<and> [CHR ''a'', LF, CHR ''b''] \<noteq> [CHR ''a'', CR, CHR ''b'']"
  by (simp add: save_def load_def openx_def FileConnector_def open_path_def close_path_def
        mode_ok_def text_writer_def text_reader_def posix_def translate_newlines_def)

section \<open>The contract of \<open>Connector\<close>\<close>

text \<open>
  Claim C8, amended. The abstract base class \<open>Connector\<close> requires \<open>name\<close> and
  \<open>open\<close>, and nothing else: a class can be instantiated exactly when it defines both,
  and \<open>close\<close> is not among the abstract members.
\<close>

theorem Connector_contract:
  "(instantiable members \<longleftrightarrow> ''name'' \<in> set members \<and> ''open'' \<in> set members)
   \<and> ''close'' \<notin> set Connector_abstractmethods"
  by (simp add: instantiable_def Connector_abstractmethods_def)

text \<open>
  Claim C8 as stated fails: a class that defines \<open>name\<close> and \<open>open\<close> and no
  \<open>close\<close> meets the contract.
\<close>

theorem Connector_contract_counterexample:
  "instantiable [''name'', ''open''] \<and> ''close'' \<notin> set [''name'', ''open'']"
  by (simp add: instantiable_def Connector_abstractmethods_def)

end
